theory Spec2Isabelle
  imports Complex_Main
begin

section \<open>The hosting document\<close>

text \<open>
  The Content View (\<open>LandingPage\<close> in \<open>app/page.tsx\<close>) writes to the hosting document:
  it assigns \<open>document.title\<close>, looks up \<open>meta[name="description"]\<close> with
  \<open>document.querySelector\<close>, and either calls \<open>setAttribute\<close> on the element found
  or creates a \<open>meta\<close> element and appends it to \<open>document.head\<close>.

  A DOM node is an element (tag name, attributes in order, child nodes in order) or a
  text node.  Strings are lists of code units; every character of the source's literals is
  below 256, so \<open>\<eacute>\<close> is \<open>CHR 0xE9\<close> and the copyright sign is \<open>CHR 0xA9\<close>.
\<close>

datatype node =
  Element string "(string \<times> string) list" "node list"
| TextNode string

text \<open>
  The document is the tree below its \<open>html\<close> element, cut at the head element: the
  children of \<open>html\<close> that precede the head element, the children of the head element
  (\<open>document.head\<close>), and the children of \<open>html\<close> that follow the head element (the
  body element among them).  The source dereferences \<open>document.head\<close> without a check
  (its TypeScript type is not nullable), so the head element always exists here.  The title
  is not a field: \<open>document.title\<close> reads and writes the \<open>title\<close> element of this tree.
\<close>

record document =
  pre_head :: "node list"
  head :: "node list"
  post_head :: "node list"

subsection \<open>Attributes and children\<close>

text \<open>\<open>Element.getAttribute\<close>: the value of the first attribute of that name, if any.\<close>

fun getAttribute :: "(string \<times> string) list \<Rightarrow> string \<Rightarrow> string option" where
  "getAttribute [] k = None"
| "getAttribute ((k', v') # as) k = (if k' = k then Some v' else getAttribute as k)"

text \<open>
  \<open>Element.setAttribute\<close>: the first attribute of that name gets the value, where it
  stands; when there is none, a new attribute is appended.
\<close>

fun setAttribute :: "(string \<times> string) list \<Rightarrow> string \<Rightarrow> string \<Rightarrow> (string \<times> string) list" where
  "setAttribute [] k v = [(k, v)]"
| "setAttribute ((k', v') # as) k v =
     (if k' = k then (k', v) # as else (k', v') # setAttribute as k v)"

fun set_attr_node :: "string \<Rightarrow> string \<Rightarrow> node \<Rightarrow> node" where
  "set_attr_node k v (Element t as cs) = Element t (setAttribute as k v) cs"
| "set_attr_node k v (TextNode s) = TextNode s"

text \<open>Replacing all children of an element.\<close>

fun set_children :: "node list \<Rightarrow> node \<Rightarrow> node" where
  "set_children cs' (Element t as cs) = Element t as cs'"
| "set_children cs' (TextNode s) = TextNode s"

text \<open>\<open>document.createElement\<close>: an element with no attribute and no child.\<close>

definition createElement :: "string \<Rightarrow> node" where
  "createElement t = Element t [] []"

subsection \<open>Selectors and the search in tree order\<close>

text \<open>The selector \<open>meta[name="description"]\<close> of the source, on one node.\<close>

fun matches_meta_description :: "node \<Rightarrow> bool" where
  "matches_meta_description (Element t as cs) =
     (t = ''meta'' \<and> getAttribute as ''name'' = Some ''description'')"
| "matches_meta_description (TextNode s) = False"

text \<open>A \<open>title\<close> element: what \<open>document.title\<close> looks for.\<close>

fun matches_title :: "node \<Rightarrow> bool" where
  "matches_title (Element t as cs) = (t = ''title'')"
| "matches_title (TextNode s) = False"

text \<open>
  A path names a node by child indices.  \<open>find_node\<close> searches a node and its descendants
  and \<open>find_list\<close> a list of siblings for the first element a selector matches, both in
  tree order (a node before its children, the children before the next sibling), as
  \<open>querySelector\<close> does; the result is the path of the first match (the empty path is the
  node itself).
\<close>

fun shift :: "nat list \<Rightarrow> nat list" where
  "shift [] = []"
| "shift (i # p) = Suc i # p"

fun find_node :: "(node \<Rightarrow> bool) \<Rightarrow> node \<Rightarrow> nat list option"
  and find_list :: "(node \<Rightarrow> bool) \<Rightarrow> node list \<Rightarrow> nat list option" where
  "find_node P (TextNode s) = None"
| "find_node P (Element t as cs) =
     (if P (Element t as cs) then Some [] else find_list P cs)"
| "find_list P [] = None"
| "find_list P (n # ns) =
     (case find_node P n of
        Some p \<Rightarrow> Some (0 # p)
      | None \<Rightarrow> map_option shift (find_list P ns))"

text \<open>Reading the node at a path, and changing the node at a path.\<close>

fun get_node :: "nat list \<Rightarrow> node \<Rightarrow> node option"
  and get_list :: "nat list \<Rightarrow> node list \<Rightarrow> node option" where
  "get_node [] n = Some n"
| "get_node (i # p) (Element t as cs) = get_list (i # p) cs"
| "get_node (i # p) (TextNode s) = None"
| "get_list [] ns = None"
| "get_list (i # p) ns = (if i < length ns then get_node p (ns ! i) else None)"

fun modify_node :: "(node \<Rightarrow> node) \<Rightarrow> nat list \<Rightarrow> node \<Rightarrow> node"
  and modify_list :: "(node \<Rightarrow> node) \<Rightarrow> nat list \<Rightarrow> node list \<Rightarrow> node list" where
  "modify_node f [] n = f n"
| "modify_node f (i # p) (Element t as cs) = Element t as (modify_list f (i # p) cs)"
| "modify_node f (i # p) (TextNode s) = TextNode s"
| "modify_list f [] ns = ns"
| "modify_list f (i # p) ns =
     (if i < length ns then ns[i := modify_node f p (ns ! i)] else ns)"

text \<open>
  A place in the document: a path into one of its three parts.  A search of the whole
  document goes through them in tree order: before the head, the head's subtree, after it.
\<close>

datatype place = PreHead "nat list" | InHead "nat list" | PostHead "nat list"

definition find_in :: "(node \<Rightarrow> bool) \<Rightarrow> document \<Rightarrow> place option" where
  "find_in P d =
     (case find_list P (pre_head d) of
        Some p \<Rightarrow> Some (PreHead p)
      | None \<Rightarrow>
          (case find_list P (head d) of
             Some p \<Rightarrow> Some (InHead p)
           | None \<Rightarrow> map_option PostHead (find_list P (post_head d))))"

text \<open>\<open>document.querySelector('meta[name="description"]')\<close>.\<close>

definition querySelector :: "document \<Rightarrow> place option" where
  "querySelector d = find_in matches_meta_description d"

text \<open>The title element of the document: its first \<open>title\<close> element in tree order.\<close>

definition title_element :: "document \<Rightarrow> place option" where
  "title_element d = find_in matches_title d"

fun node_at :: "document \<Rightarrow> place \<Rightarrow> node option" where
  "node_at d (PreHead p) = get_list p (pre_head d)"
| "node_at d (InHead p) = get_list p (head d)"
| "node_at d (PostHead p) = get_list p (post_head d)"

fun modify_at :: "(node \<Rightarrow> node) \<Rightarrow> place \<Rightarrow> document \<Rightarrow> document" where
  "modify_at f (PreHead p) d = d\<lparr>pre_head := modify_list f p (pre_head d)\<rparr>"
| "modify_at f (InHead p) d = d\<lparr>head := modify_list f p (head d)\<rparr>"
| "modify_at f (PostHead p) d = d\<lparr>post_head := modify_list f p (post_head d)\<rparr>"

definition setAttribute_at :: "document \<Rightarrow> place \<Rightarrow> string \<Rightarrow> string \<Rightarrow> document" where
  "setAttribute_at d pl k v = modify_at (set_attr_node k v) pl d"

subsection \<open>The \<open>document.title\<close> accessor\<close>

text \<open>
  The getter: the child text content of the title element (the data of its text node
  children, concatenated), with ASCII whitespace stripped at both ends and collapsed to
  single spaces inside; the empty string when there is no title element.
\<close>

fun text_data :: "node \<Rightarrow> string" where
  "text_data (TextNode s) = s"
| "text_data (Element t as cs) = []"

definition child_text_content :: "node list \<Rightarrow> string" where
  "child_text_content cs = concat (map text_data cs)"

definition is_ascii_whitespace :: "char \<Rightarrow> bool" where
  "is_ascii_whitespace c =
     (c = CHR 0x09 \<or> c = CHR 0x0A \<or> c = CHR 0x0C \<or> c = CHR 0x0D \<or> c = CHR 0x20)"

fun split_on_whitespace :: "string \<Rightarrow> string \<Rightarrow> string list" where
  "split_on_whitespace cur [] = (if cur = [] then [] else [cur])"
| "split_on_whitespace cur (c # cs) =
     (if is_ascii_whitespace c
      then (if cur = [] then split_on_whitespace [] cs else cur # split_on_whitespace [] cs)
      else split_on_whitespace (cur @ [c]) cs)"

fun join_with_spaces :: "string list \<Rightarrow> string" where
  "join_with_spaces [] = []"
| "join_with_spaces [w] = w"
| "join_with_spaces (w # w' # ws) = w @ CHR 0x20 # join_with_spaces (w' # ws)"

definition strip_and_collapse :: "string \<Rightarrow> string" where
  "strip_and_collapse s = join_with_spaces (split_on_whitespace [] s)"

definition title :: "document \<Rightarrow> string" where
  "title d =
     (case title_element d of
        None \<Rightarrow> []
      | Some pl \<Rightarrow>
          (case node_at d pl of
             Some (Element t as cs) \<Rightarrow> strip_and_collapse (child_text_content cs)
           | _ \<Rightarrow> []))"

text \<open>
  The setter: the title element, or when there is none a new \<open>title\<close> element appended
  to the head, gets the value as its only child, a text node (no child at all for the empty
  string).
\<close>

definition text_children :: "string \<Rightarrow> node list" where
  "text_children v = (if v = [] then [] else [TextNode v])"

definition set_title :: "string \<Rightarrow> document \<Rightarrow> document" where
  "set_title v d =
     (case title_element d of
        Some pl \<Rightarrow> modify_at (set_children (text_children v)) pl d
      | None \<Rightarrow>
          d\<lparr>head := head d @ [set_children (text_children v) (createElement ''title'')]\<rparr>)"

subsection \<open>The metadata effect of the Content View\<close>

definition page_title :: string where
  "page_title = ''Timoth'' @ [CHR 0xE9] @ '' Fardella | First Blockchain Portfolio Coming Soon''"

definition page_description :: string where
  "page_description =
     ''My new blockchain portfolio website is currently under construction. Coming soon.''"

text \<open>
  The body of the \<open>useEffect\<close> callback of \<open>LandingPage\<close>, statement by statement.
\<close>

definition LandingPage_effect :: "document \<Rightarrow> document" where
  "LandingPage_effect d =
     (let d1 = set_title page_title d;
          metaDescription = querySelector d1
      in case metaDescription of
           Some pl \<Rightarrow> setAttribute_at d1 pl ''content'' page_description
         | None \<Rightarrow>
             (let meta0 = createElement ''meta'';
                  meta1 = set_attr_node ''name'' ''description'' meta0;
                  meta2 = set_attr_node ''content'' page_description meta1
              in d1\<lparr>head := head d1 @ [meta2]\<rparr>))"

text \<open>
  What a reader of the document sees as its description:
  \<open>document.querySelector('meta[name="description"]')\<close>, then its \<open>content\<close>.
\<close>

definition description_content :: "document \<Rightarrow> string option" where
  "description_content d =
     (case querySelector d of
        None \<Rightarrow> None
      | Some pl \<Rightarrow>
          (case node_at d pl of
             Some (Element t as cs) \<Rightarrow> getAttribute as ''content''
           | _ \<Rightarrow> None))"

subsection \<open>Vocabulary for what the effect leaves alone\<close>

text \<open>The node itself without its children: its tag and attributes, or its text.\<close>

fun own_part :: "node \<Rightarrow> node" where
  "own_part (Element t as cs) = Element t as []"
| "own_part (TextNode s) = TextNode s"




text \<open>A place at or below a child of the head that \<open>d\<close> does not have yet.\<close>

fun past_head :: "document \<Rightarrow> place \<Rightarrow> bool" where
  "past_head d (InHead (i # p)) = (length (head d) \<le> i)"
| "past_head d pl = False"

text \<open>The elements the effect appends to the head when they are missing.\<close>

definition new_title :: node where
  "new_title = Element ''title'' [] [TextNode page_title]"

definition new_meta :: node where
  "new_meta = Element ''meta'' [(''name'', ''description''), (''content'', page_description)] []"



section \<open>The root controller: loading flag and timer\<close>

text \<open>
  \<open>App\<close> holds \<open>isLoading\<close> (\<open>useState(true)\<close>) and one effect, run once after the
  mount: \<open>const timer = setTimeout(() => setIsLoading(false), 800)\<close>, with the cleanup
  \<open>clearTimeout(timer)\<close>.  The state of the model is the component's flag, the id the
  effect's closure holds, and the part of the host the effect touches: the clock (in the
  timer's unit, milliseconds) and the table of pending timeouts (id and due time).  The
  only callback this program ever registers is \<open>() => setIsLoading(false)\<close>.
\<close>

record world =
  isLoading :: bool
  timer :: "nat option"
  timers :: "(nat \<times> nat) list"
  next_id :: nat
  now :: nat
  live :: bool

definition setTimeout :: "nat \<Rightarrow> world \<Rightarrow> nat \<times> world" where
  "setTimeout delay w =
     (next_id w,
      w\<lparr>timers := timers w @ [(next_id w, now w + delay)], next_id := next_id w + 1\<rparr>)"

definition clearTimeout :: "nat option \<Rightarrow> world \<Rightarrow> world" where
  "clearTimeout i w = w\<lparr>timers := filter (\<lambda>(j, due). Some j \<noteq> i) (timers w)\<rparr>"

definition setIsLoading :: "bool \<Rightarrow> world \<Rightarrow> world" where
  "setIsLoading b w = w\<lparr>isLoading := b\<rparr>"

text \<open>Activation at clock \<open>t0\<close>: the state hook's initial value, then the effect.\<close>

definition App_mount :: "nat \<Rightarrow> world" where
  "App_mount t0 =
     (let w0 = \<lparr>isLoading = True, timer = None, timers = [], next_id = 1, now = t0,
                live = True\<rparr>;
          (i, w1) = setTimeout 800 w0
      in w1\<lparr>timer := Some i\<rparr>)"

text \<open>
  The clock advances by \<open>dt\<close>: every pending timeout that is due by then leaves the table
  (timeouts are one-shot) and its callback runs.
\<close>

definition advance :: "nat \<Rightarrow> world \<Rightarrow> world" where
  "advance dt w =
     (let t = now w + dt;
          fired = filter (\<lambda>(j, due). due \<le> t) (timers w);
          w1 = w\<lparr>now := t, timers := filter (\<lambda>(j, due). \<not> due \<le> t) (timers w)\<rparr>
      in foldl (\<lambda>w' cb. setIsLoading False w') w1 fired)"

text \<open>Teardown of the root: the effect's cleanup runs, once.\<close>

definition teardown :: "world \<Rightarrow> world" where
  "teardown w = (if live w then (clearTimeout (timer w) w)\<lparr>live := False\<rparr> else w)"

datatype event = Advance nat | Teardown

fun step :: "world \<Rightarrow> event \<Rightarrow> world" where
  "step w (Advance dt) = advance dt w"
| "step w Teardown = teardown w"

fun run :: "world \<Rightarrow> event list \<Rightarrow> world" where
  "run w [] = w"
| "run w (e # es) = run (step w e) es"

text \<open>The states a run goes through, the first one included.\<close>

fun trace :: "world \<Rightarrow> event list \<Rightarrow> world list" where
  "trace w [] = [w]"
| "trace w (e # es) = w # trace (step w e) es"

text \<open>How many times a flag changes along a sequence of observations.\<close>

fun changes :: "bool list \<Rightarrow> nat" where
  "changes (a # b # xs) = (if a = b then 0 else 1) + changes (b # xs)"
| "changes xs = 0"

text \<open>The time that passes in a run.\<close>

fun elapsed :: "event list \<Rightarrow> nat" where
  "elapsed [] = 0"
| "elapsed (Advance dt # es) = dt + elapsed es"
| "elapsed (Teardown # es) = elapsed es"

text \<open>
  Two invariants for the proofs.  Any state after an activation at \<open>t0\<close> either still has
  the one timeout pending (and is then loading, live and before the due time) or has an empty
  table.  While the root has not been torn down, the flag is decided by the clock.
\<close>

definition pending_or_done :: "nat \<Rightarrow> world \<Rightarrow> bool" where
  "pending_or_done t0 w =
     (timer w = Some 1 \<and>
      (timers w = [] \<or>
       timers w = [(1, t0 + 800)] \<and> isLoading w \<and> live w \<and> now w < t0 + 800))"

definition by_the_clock :: "nat \<Rightarrow> world \<Rightarrow> bool" where
  "by_the_clock t0 w =
     (timer w = Some 1 \<and> live w \<and>
      (if now w < t0 + 800 then timers w = [(1, t0 + 800)] \<and> isLoading w
       else timers w = [] \<and> \<not> isLoading w))"

section \<open>What the components render\<close>

text \<open>
  The value of a JSX prop: a string, a number (the decimal the literal denotes),
  \<open>Infinity\<close>, an object literal (entries in order) or an array literal.
\<close>

datatype jsval =
  Str string
| Num real
| Infinity
| Obj "(string \<times> jsval) list"
| Arr "jsval list"

text \<open>
  What a component returns: an element (its type as written in the JSX, its props in
  order, its children in order) or text.  JSX comments render nothing; an element of a
  component type (\<open>Loader\<close>, \<open>LandingPage\<close>, \<open>AnimatePresence\<close>, the two icons) stands
  as written, not expanded.
\<close>

datatype vnode =
  VElement string "(string \<times> jsval) list" "vnode list"
| VText string

fun tag_of :: "vnode \<Rightarrow> string" where
  "tag_of (VElement t ps cs) = t"
| "tag_of (VText s) = []"

fun children_of :: "vnode \<Rightarrow> vnode list" where
  "children_of (VElement t ps cs) = cs"
| "children_of (VText s) = []"

fun lookup :: "(string \<times> jsval) list \<Rightarrow> string \<Rightarrow> jsval option" where
  "lookup [] k = None"
| "lookup ((k', v) # kvs) k = (if k' = k then Some v else lookup kvs k)"

fun get_prop :: "vnode \<Rightarrow> string \<Rightarrow> jsval option" where
  "get_prop (VElement t ps cs) k = lookup ps k"
| "get_prop (VText s) k = None"

fun field :: "jsval \<Rightarrow> string \<Rightarrow> jsval option" where
  "field (Obj kvs) k = lookup kvs k"
| "field v k = None"

text \<open>All elements of a given type in a tree, in tree order.\<close>

fun elements_by_tag :: "string \<Rightarrow> vnode \<Rightarrow> vnode list"
  and elements_by_tag_list :: "string \<Rightarrow> vnode list \<Rightarrow> vnode list" where
  "elements_by_tag tg (VText s) = []"
| "elements_by_tag tg (VElement t ps cs) =
     (if t = tg then [VElement t ps cs] else []) @ elements_by_tag_list tg cs"
| "elements_by_tag_list tg [] = []"
| "elements_by_tag_list tg (n # ns) = elements_by_tag tg n @ elements_by_tag_list tg ns"

subsection \<open>Loader\<close>

definition Loader :: vnode where
  "Loader =
     VElement ''motion.div''
       [(''className'', Str ''fixed inset-0 z-50 flex items-center justify-center bg-white''),
        (''initial'', Obj [(''opacity'', Num 1)]),
        (''exit'', Obj [(''transition'',
            Obj [(''duration'', Num 0.8), (''ease'', Str ''easeInOut'')])]),
        (''role'', Str ''status''),
        (''aria-live'', Str ''polite''),
        (''aria-label'', Str ''Loading portfolio'')]
       [VElement ''div'' [(''className'', Str ''relative flex items-center justify-center'')]
          [VElement ''motion.div''
             [(''className'', Str ''h-12 w-12 border-2 border-neutral-100 rounded-full'')]
             [],
           VElement ''motion.div''
             [(''className'',
                 Str ''absolute h-12 w-12 border-t-2 border-neutral-900 rounded-full''),
              (''animate'', Obj [(''rotate'', Num 360)]),
              (''transition'',
                 Obj [(''duration'', Num 1), (''repeat'', Infinity), (''ease'', Str ''linear'')])]
             []]]"

text \<open>The two rings of the spinner: the children of the Loader's inner \<open>div\<close>.\<close>

definition Loader_rings :: "vnode list" where
  "Loader_rings = concat (map children_of (children_of Loader))"

text \<open>
  An animation object of the motion library names the values to animate to, beside an
  optional \<open>transition\<close> (how to animate) and \<open>transitionEnd\<close>: the targets are the other
  entries.
\<close>

fun animation_targets :: "jsval \<Rightarrow> (string \<times> jsval) list" where
  "animation_targets (Obj kvs) =
     filter (\<lambda>(k, v). k \<noteq> ''transition'' \<and> k \<noteq> ''transitionEnd'') kvs"
| "animation_targets v = []"

subsection \<open>The current date and the number in the footer\<close>

text \<open>
  \<open>new Date()\<close> is the host's current date in local time; \<open>getFullYear\<close> reads its year.
\<close>

record date =
  year :: int
  month :: nat
  day :: nat

definition getFullYear :: "date \<Rightarrow> int" where
  "getFullYear d = year d"

text \<open>
  A number child of a JSX element is rendered as its decimal string; the year is an
  integer.
\<close>

definition digit_char :: "nat \<Rightarrow> char" where
  "digit_char n = ''0123456789'' ! n"

fun string_of_nat :: "nat \<Rightarrow> string" where
  "string_of_nat n =
     (if n < 10 then [digit_char n] else string_of_nat (n div 10) @ [digit_char (n mod 10)])"

definition Number_toString :: "int \<Rightarrow> string" where
  "Number_toString i =
     (if i < 0 then CHR ''-'' # string_of_nat (nat (- i)) else string_of_nat (nat i))"

text \<open>Reading a decimal string back, to say which number a rendered text shows.\<close>

definition digit_value :: "char \<Rightarrow> nat" where
  "digit_value c = of_char c - 48"

definition nat_of_string :: "string \<Rightarrow> nat" where
  "nat_of_string s = foldl (\<lambda>a c. 10 * a + digit_value c) 0 s"

fun int_of_string :: "string \<Rightarrow> int" where
  "int_of_string [] = 0"
| "int_of_string (c # cs) =
     (if c = CHR ''-'' then - int (nat_of_string cs) else int (nat_of_string (c # cs)))"

subsection \<open>LandingPage\<close>

definition containerVariants :: jsval where
  "containerVariants =
     Obj [(''hidden'', Obj [(''opacity'', Num 0)]),
          (''visible'', Obj [(''opacity'', Num 1),
             (''transition'', Obj [(''staggerChildren'', Num 0.2), (''delayChildren'', Num 0.3)])])]"

definition itemVariants :: jsval where
  "itemVariants =
     Obj [(''hidden'', Obj [(''y'', Num 20), (''opacity'', Num 0)]),
          (''visible'', Obj [(''y'', Num 0), (''opacity'', Num 1),
             (''transition'', Obj [(''duration'', Num 0.8),
                (''ease'', Arr [Num 0.2, Num 0.65, Num 0.3, Num 0.9])])])]"

text \<open>The render of \<open>LandingPage\<close>; \<open>today\<close> is what \<open>new Date()\<close> gives during it.\<close>

definition LandingPage :: "date \<Rightarrow> vnode" where
  "LandingPage today =
     VElement ''main''
       [(''className'', Str ''flex min-h-screen w-full flex-col items-center justify-center bg-white px-6 py-12 text-center sm:px-12'')]
       [VElement ''motion.div''
          [(''className'', Str ''max-w-md space-y-8''),
           (''variants'', containerVariants),
           (''initial'', Str ''hidden''),
           (''animate'', Str ''visible'')]
          [VElement ''motion.div''
             [(''variants'', itemVariants), (''className'', Str ''flex justify-center'')]
             [VElement ''span''
                [(''className'', Str ''inline-flex items-center rounded-full bg-neutral-100 px-3 py-1 text-xs font-medium uppercase tracking-widest text-neutral-600'')]
                [VElement ''span''
                   [(''className'', Str ''mr-2 h-2 w-2 animate-pulse rounded-full bg-green-500'')]
                   [],
                 VText ''Under Construction'']],
           VElement ''motion.h1''
             [(''variants'', itemVariants),
              (''className'', Str ''font-sans text-4xl font-semibold tracking-tight text-neutral-900 sm:text-5xl lg:text-6xl'')]
             [VText ''Something bold is coming.''],
           VElement ''motion.p''
             [(''variants'', itemVariants),
              (''className'', Str ''mx-auto max-w-sm text-lg leading-relaxed text-neutral-500'')]
             [VText ''My new blockchain portfolio website is currently being crafted with care. Check back soon for updates.''],
           VElement ''motion.div''
             [(''variants'', itemVariants), (''className'', Str ''pt-4'')]
             [VElement ''a''
                [(''href'', Str ''https://github.com/teamssUTXO''),
                 (''target'', Str ''_blank''),
                 (''rel'', Str ''noopener noreferrer''),
                 (''className'', Str ''group inline-flex items-center gap-2 rounded-lg border border-neutral-200 bg-white px-6 py-3 text-sm font-medium text-neutral-900 transition-all hover:border-neutral-900 hover:bg-neutral-50 focus:outline-none focus:ring-2 focus:ring-neutral-900 focus:ring-offset-2''),
                 (''aria-label'', Str ''Visit my GitHub profile'')]
                [VElement ''Github''
                   [(''className'', Str ''h-4 w-4 transition-transform group-hover:scale-110'')]
                   [],
                 VElement ''span'' [] [VText ''Follow on GitHub''],
                 VElement ''ArrowRight''
                   [(''className'', Str ''h-3 w-3 opacity-0 -translate-x-2 transition-all group-hover:opacity-100 group-hover:translate-x-0'')]
                   []]]],
        VElement ''motion.footer''
          [(''initial'', Obj [(''opacity'', Num 0)]),
           (''animate'', Obj [(''opacity'', Num 1)]),
           (''transition'', Obj [(''delay'', Num 1.5), (''duration'', Num 1)]),
           (''className'', Str ''absolute bottom-6 text-xs text-neutral-400'')]
          [VText [CHR 0xA9, CHR '' ''],
           VText (Number_toString (getFullYear today)),
           VText ('' Timoth'' @ [CHR 0xE9] @ '' Fardella. All rights reserved.'')]]"

text \<open>
  The tokens of a space-separated attribute value such as \<open>rel\<close>.
\<close>

fun tokens_from :: "string \<Rightarrow> string \<Rightarrow> string list" where
  "tokens_from cur [] = (if cur = [] then [] else [cur])"
| "tokens_from cur (c # cs) =
     (if c = CHR '' '' then (if cur = [] then tokens_from [] cs else cur # tokens_from [] cs)
      else tokens_from (cur @ [c]) cs)"

fun space_separated :: "jsval \<Rightarrow> string list" where
  "space_separated (Str s) = tokens_from [] s"
| "space_separated v = []"

subsection \<open>App\<close>

text \<open>The render of \<open>App\<close> for a value of its \<open>isLoading\<close> state.\<close>

definition App_render :: "bool \<Rightarrow> vnode" where
  "App_render loading =
     VElement ''div''
       [(''className'', Str ''font-sans text-neutral-900 antialiased selection:bg-neutral-900 selection:text-white'')]
       [VElement ''AnimatePresence'' [(''mode'', Str ''wait'')]
          [if loading then VElement ''Loader'' [(''key'', Str ''loader'')] []
           else VElement ''LandingPage'' [(''key'', Str ''landing'')] []]]"

text \<open>
  The views the root has on screen: the component elements \<open>App\<close> renders under
  \<open>AnimatePresence\<close>, while the root is live; none after its teardown.
\<close>

definition views :: "world \<Rightarrow> string list" where
  "views w =
     (if live w
      then map tag_of
        (concat (map children_of (elements_by_tag ''AnimatePresence'' (App_render (isLoading w)))))
      else [])"

definition LoadingView_mounted :: "world \<Rightarrow> bool" where
  "LoadingView_mounted w = (''Loader'' \<in> set (views w))"

definition ContentView_mounted :: "world \<Rightarrow> bool" where
  "ContentView_mounted w = (''LandingPage'' \<in> set (views w))"

section \<open>Properties of the metadata effect\<close>

subsection \<open>Attributes\<close>

lemma getAttribute_setAttribute_same:
  "getAttribute (setAttribute as k v) k = Some v"
  by (induction as k v rule: setAttribute.induct) auto

lemma getAttribute_setAttribute_other:
  "k' \<noteq> k \<Longrightarrow> getAttribute (setAttribute as k v) k' = getAttribute as k'"
  by (induction as k v rule: setAttribute.induct) auto

lemma setAttribute_idem:
  "setAttribute (setAttribute as k v) k v = setAttribute as k v"
  by (induction as k v rule: setAttribute.induct) auto

lemma setAttribute_same_value:
  "getAttribute as k = Some v \<Longrightarrow> setAttribute as k v = as"
  by (induction as k v rule: setAttribute.induct) (auto split: if_splits)

lemma set_attr_node_idem:
  "set_attr_node k v (set_attr_node k v n) = set_attr_node k v n"
  by (cases n) (simp_all add: setAttribute_idem)

lemma matches_set_content:
  "matches_meta_description (set_attr_node ''content'' v n) = matches_meta_description n"
  by (cases n) (simp_all add: getAttribute_setAttribute_other)

lemma matches_title_set_attr:
  "matches_title (set_attr_node k v n) = matches_title n"
  by (cases n) simp_all

lemma matches_title_set_children:
  "matches_title (set_children cs n) = matches_title n"
  by (cases n) simp_all



subsection \<open>The search and the update on trees\<close>

lemma find_list_nonempty: "find_list P ns = Some p \<Longrightarrow> p \<noteq> []"
proof (induction ns arbitrary: p)
  case Nil
  then show ?case by simp
next
  case (Cons n ns)
  show ?case
  proof (cases "find_node P n")
    case None
    with Cons.prems obtain q where q: "find_list P ns = Some q" "p = shift q" by auto
    with Cons.IH have "q \<noteq> []" by blast
    with q show ?thesis by (cases q) auto
  next
    case (Some q)
    with Cons.prems show ?thesis by auto
  qed
qed

lemma get_list_shift_Cons:
  "q \<noteq> [] \<Longrightarrow> get_list (shift q) (n # ns) = get_list q ns"
  by (cases q) auto

lemma modify_list_shift_Cons:
  "q \<noteq> [] \<Longrightarrow> modify_list f (shift q) (n # ns) = n # modify_list f q ns"
  by (cases q) auto

text \<open>The path the search returns leads to a node that the selector matches.\<close>

lemma find_sound:
  "find_node P n = Some p \<Longrightarrow> \<exists>m. get_node p n = Some m \<and> P m"
  "find_list P ns = Some p \<Longrightarrow> \<exists>m. get_list p ns = Some m \<and> P m"
proof (induction P n and P ns arbitrary: p and p rule: find_node_find_list.induct)
  case (1 P s)
  then show ?case by simp
next
  case (2 P t as cs)
  show ?case
  proof (cases "P (Element t as cs)")
    case True
    with 2(2) have "p = []" by simp
    with True show ?thesis by simp
  next
    case False
    with 2(2) have f: "find_list P cs = Some p" by simp
    then obtain i q where p: "p = i # q" using find_list_nonempty by (cases p) auto
    from 2(1)[OF False f] obtain m where "get_list p cs = Some m" "P m"
      by blast
    with p show ?thesis by simp
  qed
next
  case (3 P)
  then show ?case by simp
next
  case (4 P n ns)
  show ?case
  proof (cases "find_node P n")
    case None
    with 4(3) obtain q where q: "find_list P ns = Some q" "p = shift q" by auto
    then have ne: "q \<noteq> []" using find_list_nonempty by blast
    from 4(2)[OF None q(1)] obtain m where "get_list q ns = Some m" "P m"
      by blast
    with q ne show ?thesis by (simp add: get_list_shift_Cons)
  next
    case (Some q)
    with 4(3) have p: "p = 0 # q" by simp
    from 4(1)[OF Some] obtain m where "get_node q n = Some m" "P m"
      by blast
    with p show ?thesis by simp
  qed
qed

text \<open>
  A selector that reads tag and attributes only, and a change that keeps the node found
  a match: the change at the path found does not move the first match.
\<close>

lemma find_stable:
  "(\<And>t as cs cs'. P (Element t as cs) = P (Element t as cs')) \<Longrightarrow>
   (\<And>s. \<not> P (TextNode s)) \<Longrightarrow> (\<And>n. P n \<Longrightarrow> P (f n)) \<Longrightarrow>
   find_node P n = Some p \<Longrightarrow> find_node P (modify_node f p n) = Some p"
  "(\<And>t as cs cs'. P (Element t as cs) = P (Element t as cs')) \<Longrightarrow>
   (\<And>s. \<not> P (TextNode s)) \<Longrightarrow> (\<And>n. P n \<Longrightarrow> P (f n)) \<Longrightarrow>
   find_list P ns = Some p \<Longrightarrow> find_list P (modify_list f p ns) = Some p"
proof (induction P n and P ns arbitrary: p and p rule: find_node_find_list.induct)
  case (1 P s)
  then show ?case by simp
next
  case (2 P t as cs)
  show ?case
  proof (cases "P (Element t as cs)")
    case True
    with 2(5) have p: "p = []" by simp
    from True 2(4) have m: "P (f (Element t as cs))" by blast
    with 2(3) obtain t' as' cs' where "f (Element t as cs) = Element t' as' cs'"
      by (cases "f (Element t as cs)") auto
    with m p show ?thesis by simp
  next
    case False
    with 2(5) have f: "find_list P cs = Some p" by simp
    then obtain i q where p: "p = i # q" using find_list_nonempty by (cases p) auto
    from 2(1)[OF False 2(2) 2(3) 2(4) f]
    have "find_list P (modify_list f p cs) = Some p" .
    moreover from False 2(2) have "\<not> P (Element t as (modify_list f p cs))" by blast
    ultimately show ?thesis using p by simp
  qed
next
  case (3 P)
  then show ?case by simp
next
  case (4 P n ns)
  show ?case
  proof (cases "find_node P n")
    case None
    with 4(6) obtain q where q: "find_list P ns = Some q" "p = shift q" by auto
    then have ne: "q \<noteq> []" using find_list_nonempty by blast
    from 4(2)[OF None 4(3) 4(4) 4(5) q(1)]
    have "find_list P (modify_list f q ns) = Some q" .
    with q ne None show ?thesis by (simp add: modify_list_shift_Cons)
  next
    case (Some q)
    with 4(6) have p: "p = 0 # q" by simp
    from 4(1)[OF 4(3) 4(4) 4(5) Some] have "find_node P (modify_node f q n) = Some q" .
    with p show ?thesis by simp
  qed
qed


lemma get_modify:
  "get_node p (modify_node f p n) = map_option f (get_node p n)"
  "get_list p (modify_list f p ns) = map_option f (get_list p ns)"
  by (induction f p n and f p ns rule: modify_node_modify_list.induct) auto

text \<open>A change that changes nothing at the node it is applied to changes nothing.\<close>

lemma modify_fixed:
  "get_node p n = Some m \<Longrightarrow> f m = m \<Longrightarrow> modify_node f p n = n"
  "get_list p ns = Some m \<Longrightarrow> f m = m \<Longrightarrow> modify_list f p ns = ns"
  by (induction f p n and f p ns rule: modify_node_modify_list.induct)
     (auto split: if_splits)

lemma find_list_update:
  "find_node P n' = find_node P (ns ! i) \<Longrightarrow> find_list P (ns[i := n']) = find_list P ns"
proof (induction ns arbitrary: i)
  case Nil
  then show ?case by simp
next
  case (Cons n ns)
  show ?case
  proof (cases i)
    case 0
    with Cons.prems show ?thesis by simp
  next
    case (Suc j)
    with Cons.prems have "find_node P n' = find_node P (ns ! j)" by simp
    then have "find_list P (ns[j := n']) = find_list P ns" by (rule Cons.IH)
    with Suc show ?thesis by (simp split: option.splits)
  qed
qed

text \<open>
  Setting an attribute does not move the first match of a selector that reads the tag
  only.
\<close>

lemma find_title_set_attr:
  "find_node matches_title (modify_node (set_attr_node k v) p n) = find_node matches_title n"
  "find_list matches_title (modify_list (set_attr_node k v) p ns) = find_list matches_title ns"
proof (induction "set_attr_node k v" p n and "set_attr_node k v" p ns
    rule: modify_node_modify_list.induct)
  case (1 n)
  then show ?case by (cases n) simp_all
next
  case (2 i p t as cs)
  then show ?case by simp
next
  case (3 i p s)
  then show ?case by simp
next
  case (4 ns)
  then show ?case by simp
next
  case (5 i p ns)
  then show ?case by (simp add: find_list_update)
qed

lemma find_list_append_new:
  "find_list P ns = None \<Longrightarrow> find_node P m = Some [] \<Longrightarrow>
   find_list P (ns @ [m]) = Some [length ns]"
proof (induction ns)
  case Nil
  then show ?case by simp
next
  case (Cons n ns)
  then show ?case by (auto split: option.splits)
qed

lemma find_list_append_other:
  "find_node P m = None \<Longrightarrow> find_list P (ns @ [m]) = find_list P ns"
  by (induction ns) (auto split: option.splits)

lemma get_list_append:
  "i < length ns \<Longrightarrow> get_list (i # p) (ns @ xs) = get_list (i # p) ns"
  by (simp add: nth_append)

lemma get_list_valid: "get_list p ns = Some m \<Longrightarrow> \<exists>i q. p = i # q \<and> i < length ns"
  by (cases p) (auto split: if_splits)

lemma get_list_append_valid:
  "get_list p ns = Some m \<Longrightarrow> get_list p (ns @ xs) = Some m"
  using get_list_valid[of p ns m] by (auto simp: nth_append)



text \<open>
  A node whose children are text nodes only is not changed by setting an attribute at
  another path.
\<close>

lemma modify_text_only:
  "(\<And>c. c \<in> set cs \<Longrightarrow> \<exists>s. c = TextNode s) \<Longrightarrow> modify_list (set_attr_node k v) p cs = cs"
proof (cases p)
  case Nil
  then show ?thesis by simp
next
  case (Cons i q)
  assume a: "\<And>c. c \<in> set cs \<Longrightarrow> \<exists>s. c = TextNode s"
  show ?thesis
  proof (cases "i < length cs")
    case True
    with a obtain s where s: "cs ! i = TextNode s" by (meson nth_mem)
    then have "modify_node (set_attr_node k v) q (cs ! i) = cs ! i" by (cases q) simp_all
    with Cons True show ?thesis by simp
  next
    case False
    with Cons show ?thesis by simp
  qed
qed

lemma get_modify_leaf:
  "get_node q n = Some (Element t as cs) \<Longrightarrow> (\<And>c. c \<in> set cs \<Longrightarrow> \<exists>s. c = TextNode s) \<Longrightarrow>
   q \<noteq> p \<Longrightarrow> get_node q (modify_node (set_attr_node k v) p n) = Some (Element t as cs)"
  "get_list q ns = Some (Element t as cs) \<Longrightarrow> (\<And>c. c \<in> set cs \<Longrightarrow> \<exists>s. c = TextNode s) \<Longrightarrow>
   q \<noteq> p \<Longrightarrow> get_list q (modify_list (set_attr_node k v) p ns) = Some (Element t as cs)"
proof (induction "set_attr_node k v" p n and "set_attr_node k v" p ns arbitrary: q and q
    rule: modify_node_modify_list.induct)
  case (1 n)
  then obtain j q' where "q = j # q'" by (cases q) auto
  with 1(1) show ?case by (cases n) auto
next
  case (2 i p t' as' cs')
  show ?case
  proof (cases q)
    case Nil
    with 2(2) have e: "t' = t" "as' = as" "cs' = cs" by simp_all
    from 2(3) have "modify_list (set_attr_node k v) (i # p) cs = cs"
      by (rule modify_text_only)
    with Nil e show ?thesis by (simp only: modify_node.simps get_node.simps)
  next
    case (Cons j q')
    with 2(2) have "get_list q cs' = Some (Element t as cs)" by simp
    from 2(1)[OF this 2(3) 2(4)] Cons show ?thesis
      by (simp only: modify_node.simps get_node.simps)
  qed
next
  case (3 i p s)
  then show ?case by simp
next
  case (4 ns)
  then show ?case by simp
next
  case (5 i p ns)
  show ?case
  proof (cases q)
    case Nil
    with 5(2) show ?thesis by simp
  next
    case (Cons j q')
    show ?thesis
    proof (cases "j = i")
      case True
      with Cons 5(4) have ne: "q' \<noteq> p" by simp
      from True Cons 5(2) have il: "i < length ns" and g: "get_node q' (ns ! i) = Some (Element t as cs)"
        by (auto split: if_splits)
      from 5(1)[OF il g 5(3) ne] True Cons il show ?thesis by simp
    next
      case False
      with Cons 5(2) show ?thesis by (auto split: if_splits)
    qed
  qed
qed

text \<open>
  Two trees with the same own parts at every path are equal, so a statement about the own
  part at every path is a statement about the whole tree.
\<close>

lemma get_list_ext:
  assumes eq: "\<And>q. map_option own_part (get_list q as) = map_option own_part (get_list q bs)"
    and ih: "\<And>a b. a \<in> set as \<Longrightarrow>
        (\<And>q. map_option own_part (get_node q a) = map_option own_part (get_node q b)) \<Longrightarrow> a = b"
  shows "as = bs"
proof (rule nth_equalityI)
  show len: "length as = length bs"
  proof (rule ccontr)
    assume "length as \<noteq> length bs"
    then consider "length as < length bs" | "length bs < length as" by linarith
    then show False
    proof cases
      case 1
      with eq[of "[length as]"] show False by simp
    next
      case 2
      with eq[of "[length bs]"] show False by simp
    qed
  qed
  fix i
  assume i: "i < length as"
  show "as ! i = bs ! i"
  proof (rule ih)
    from i show "as ! i \<in> set as" by simp
    fix q
    from eq[of "i # q"] i len
    show "map_option own_part (get_node q (as ! i)) = map_option own_part (get_node q (bs ! i))"
      by simp
  qed
qed

lemma get_node_ext:
  "(\<And>q. map_option own_part (get_node q a) = map_option own_part (get_node q b)) \<Longrightarrow> a = b"
proof (induction a arbitrary: b)
  case (Element t as cs)
  from Element.prems[of "[]"] obtain cs' where b: "b = Element t as cs'"
    by (cases b) auto
  have "cs = cs'"
  proof (rule get_list_ext)
    fix q
    show "map_option own_part (get_list q cs) = map_option own_part (get_list q cs')"
    proof (cases q)
      case Nil
      then show ?thesis by simp
    next
      case (Cons i p)
      with Element.prems[of q] b show ?thesis by simp
    qed
  next
    fix a b'
    assume "a \<in> set cs"
      and "\<And>q. map_option own_part (get_node q a) = map_option own_part (get_node q b')"
    then show "a = b'" by (rule Element.IH)
  qed
  with b show ?case by simp
next
  case (TextNode s)
  from TextNode[of "[]"] show ?case by (cases b) auto
qed

lemma forest_ext:
  "(\<And>q. map_option own_part (get_list q as) = map_option own_part (get_list q bs)) \<Longrightarrow> as = bs"
  by (rule get_list_ext) (auto intro: get_node_ext)

subsection \<open>The search and the update on the document\<close>

lemma find_in_sound:
  assumes "find_in P d = Some pl"
  shows "\<exists>m. node_at d pl = Some m \<and> P m"
proof (cases "find_list P (pre_head d)")
  case (Some p)
  with assms have "pl = PreHead p" by (simp add: find_in_def)
  with find_sound(2)[OF Some] show ?thesis by simp
next
  case None
  note pre = None
  show ?thesis
  proof (cases "find_list P (head d)")
    case (Some p)
    with assms pre have "pl = InHead p" by (simp add: find_in_def)
    with find_sound(2)[OF Some] show ?thesis by simp
  next
    case None
    with assms pre obtain p where p: "find_list P (post_head d) = Some p" "pl = PostHead p"
      by (auto simp: find_in_def)
    with find_sound(2)[OF p(1)] show ?thesis by simp
  qed
qed

lemma find_in_stable:
  assumes own: "\<And>t as cs cs'. P (Element t as cs) = P (Element t as cs')"
    and notext: "\<And>s. \<not> P (TextNode s)"
    and keep: "\<And>n. P n \<Longrightarrow> P (f n)"
    and found: "find_in P d = Some pl"
  shows "find_in P (modify_at f pl d) = Some pl"
proof (cases "find_list P (pre_head d)")
  case (Some p)
  with found have "pl = PreHead p" by (simp add: find_in_def)
  with find_stable(2)[of P f, OF own notext keep Some] show ?thesis
    by (simp add: find_in_def)
next
  case None
  note pre = None
  show ?thesis
  proof (cases "find_list P (head d)")
    case (Some p)
    with found pre have "pl = InHead p" by (simp add: find_in_def)
    with pre find_stable(2)[of P f, OF own notext keep Some] show ?thesis
      by (simp add: find_in_def)
  next
    case None
    with found pre obtain p where p: "find_list P (post_head d) = Some p" "pl = PostHead p"
      by (auto simp: find_in_def)
    with pre None find_stable(2)[of P f, OF own notext keep p(1)] show ?thesis
      by (simp add: find_in_def)
  qed
qed

lemma title_element_set_attr:
  "title_element (modify_at (set_attr_node k v) pl d) = title_element d"
  by (cases pl)
     (simp_all add: title_element_def find_in_def find_title_set_attr cong: option.case_cong)

lemma node_at_modify_at:
  "node_at (modify_at f pl d) pl = map_option f (node_at d pl)"
  by (cases pl) (simp_all add: get_modify)



lemma node_at_set_attr_leaf:
  assumes "node_at d q = Some (Element t as cs)"
    and "\<And>c. c \<in> set cs \<Longrightarrow> \<exists>s. c = TextNode s"
    and "q \<noteq> pl"
  shows "node_at (modify_at (set_attr_node k v) pl d) q = Some (Element t as cs)"
  using assms by (cases pl; cases q) (simp_all add: get_modify_leaf)

lemma modify_at_fixed:
  "node_at d pl = Some m \<Longrightarrow> f m = m \<Longrightarrow> modify_at f pl d = d"
  by (cases pl) (simp_all add: modify_fixed)

lemma find_in_append_new:
  assumes "find_in P d = None" and "find_node P m = Some []"
  shows "find_in P (d\<lparr>head := head d @ [m]\<rparr>) = Some (InHead [length (head d)])"
proof -
  from assms(1) have "find_list P (pre_head d) = None" "find_list P (head d) = None"
    by (simp_all add: find_in_def split: option.splits)
  with find_list_append_new[OF this(2) assms(2)] show ?thesis
    by (simp add: find_in_def)
qed

lemma find_in_append_other:
  "find_node P m = None \<Longrightarrow> find_in P (d\<lparr>head := head d @ [m]\<rparr>) = find_in P d"
  by (simp add: find_in_def find_list_append_other cong: option.case_cong)

lemma node_at_append:
  "\<not> past_head d q \<Longrightarrow> node_at (d\<lparr>head := head d @ xs\<rparr>) q = node_at d q"
proof (cases q)
  case (InHead p)
  assume "\<not> past_head d q"
  with InHead show ?thesis by (cases p) (simp_all add: nth_append)
qed simp_all

lemma node_at_valid_not_past: "node_at d q = Some m \<Longrightarrow> \<not> past_head d q"
proof (cases q)
  case (InHead p)
  assume "node_at d q = Some m"
  with InHead show ?thesis by (cases p) (auto split: if_splits)
qed simp_all

lemma node_at_appended:
  "node_at (d\<lparr>head := head d @ [m]\<rparr>) (InHead [length (head d)]) = Some m"
  by simp

subsection \<open>The two statements of the effect\<close>

lemma strip_and_collapse_page_title: "strip_and_collapse page_title = page_title"
  by (simp add: strip_and_collapse_def page_title_def is_ascii_whitespace_def)

lemma text_children_page_title: "text_children page_title = [TextNode page_title]"
  by (simp add: text_children_def page_title_def)

lemma set_title_found:
  "title_element d = Some pt \<Longrightarrow>
   set_title page_title d = modify_at (set_children [TextNode page_title]) pt d"
  by (simp add: set_title_def text_children_page_title)

lemma set_title_absent:
  "title_element d = None \<Longrightarrow> set_title page_title d = d\<lparr>head := head d @ [new_title]\<rparr>"
  by (simp add: set_title_def text_children_page_title createElement_def new_title_def)

lemma effect_found:
  "querySelector (set_title page_title d) = Some pl \<Longrightarrow>
   LandingPage_effect d =
     modify_at (set_attr_node ''content'' page_description) pl (set_title page_title d)"
  by (simp add: LandingPage_effect_def setAttribute_at_def)

lemma effect_absent:
  "querySelector (set_title page_title d) = None \<Longrightarrow>
   LandingPage_effect d =
     (set_title page_title d)\<lparr>head := head (set_title page_title d) @ [new_meta]\<rparr>"
  by (simp add: LandingPage_effect_def createElement_def new_meta_def Let_def)

text \<open>After the title assignment the title element holds exactly the title text.\<close>

lemma set_title_result:
  "\<exists>pt t as. title_element (set_title page_title d) = Some pt \<and>
     node_at (set_title page_title d) pt = Some (Element t as [TextNode page_title])"
proof (cases "title_element d")
  case None
  then have e: "set_title page_title d = d\<lparr>head := head d @ [new_title]\<rparr>"
    by (rule set_title_absent)
  from None have "find_in matches_title d = None" by (simp add: title_element_def)
  then have "find_in matches_title (d\<lparr>head := head d @ [new_title]\<rparr>) =
      Some (InHead [length (head d)])"
    by (rule find_in_append_new) (simp add: new_title_def)
  with e show ?thesis by (simp add: title_element_def new_title_def)
next
  case (Some pt)
  then have e: "set_title page_title d = modify_at (set_children [TextNode page_title]) pt d"
    by (rule set_title_found)
  from Some have f: "find_in matches_title d = Some pt" by (simp add: title_element_def)
  have "find_in matches_title (modify_at (set_children [TextNode page_title]) pt d) = Some pt"
    by (rule find_in_stable[OF _ _ _ f]) (simp_all add: matches_title_set_children)
  then have t: "title_element (set_title page_title d) = Some pt"
    by (simp add: e title_element_def)
  from find_in_sound[OF f] obtain m where m: "node_at d pt = Some m" "matches_title m"
    by blast
  then obtain t as cs where "m = Element t as cs" by (cases m) auto
  with m have "node_at (set_title page_title d) pt = Some (Element t as [TextNode page_title])"
    by (simp add: e node_at_modify_at)
  with t show ?thesis by blast
qed

text \<open>The second statement does not touch the title element.\<close>

lemma effect_title_result:
  "\<exists>pt t as. title_element (LandingPage_effect d) = Some pt \<and>
     node_at (LandingPage_effect d) pt = Some (Element t as [TextNode page_title])"
proof -
  let ?d1 = "set_title page_title d"
  from set_title_result[of d] obtain pt t as where
    pt: "title_element ?d1 = Some pt" "node_at ?d1 pt = Some (Element t as [TextNode page_title])"
    by blast
  show ?thesis
  proof (cases "querySelector ?d1")
    case None
    then have e: "LandingPage_effect d = ?d1\<lparr>head := head ?d1 @ [new_meta]\<rparr>"
      by (rule effect_absent)
    have "find_in matches_title (?d1\<lparr>head := head ?d1 @ [new_meta]\<rparr>) = find_in matches_title ?d1"
      by (rule find_in_append_other) (simp add: new_meta_def)
    with pt(1) have t: "title_element (LandingPage_effect d) = Some pt"
      by (simp add: e title_element_def)
    from pt(2) have "\<not> past_head ?d1 pt" by (rule node_at_valid_not_past)
    then have "node_at (?d1\<lparr>head := head ?d1 @ [new_meta]\<rparr>) pt = node_at ?d1 pt"
      by (rule node_at_append)
    with pt(2) t e show ?thesis by simp
  next
    case (Some pl)
    then have e: "LandingPage_effect d =
        modify_at (set_attr_node ''content'' page_description) pl ?d1"
      by (rule effect_found)
    from pt(1) have t: "title_element (LandingPage_effect d) = Some pt"
      by (simp add: e title_element_set_attr)
    from Some have "find_in matches_meta_description ?d1 = Some pl"
      by (simp add: querySelector_def)
    from find_in_sound[OF this] obtain m where
      m: "node_at ?d1 pl = Some m" "matches_meta_description m" by blast
    from pt(1) have "find_in matches_title ?d1 = Some pt" by (simp add: title_element_def)
    from find_in_sound[OF this] pt(2) have "t = ''title''" by auto
    with m pt(2) have ne: "pt \<noteq> pl" by auto
    have "node_at (modify_at (set_attr_node ''content'' page_description) pl ?d1) pt =
        Some (Element t as [TextNode page_title])"
      using pt(2) _ ne by (rule node_at_set_attr_leaf) simp
    with t e show ?thesis by simp
  qed
qed

text \<open>After the effect the selector finds an element whose content is the description.\<close>

lemma effect_meta_result:
  "\<exists>pl t as cs. querySelector (LandingPage_effect d) = Some pl \<and>
     node_at (LandingPage_effect d) pl = Some (Element t as cs) \<and>
     getAttribute as ''content'' = Some page_description"
proof -
  let ?d1 = "set_title page_title d"
  show ?thesis
  proof (cases "querySelector ?d1")
    case None
    then have e: "LandingPage_effect d = ?d1\<lparr>head := head ?d1 @ [new_meta]\<rparr>"
      by (rule effect_absent)
    from None have "find_in matches_meta_description ?d1 = None"
      by (simp add: querySelector_def)
    then have "find_in matches_meta_description (?d1\<lparr>head := head ?d1 @ [new_meta]\<rparr>) =
        Some (InHead [length (head ?d1)])"
      by (rule find_in_append_new) (simp add: new_meta_def)
    then have "querySelector (LandingPage_effect d) = Some (InHead [length (head ?d1)])"
      by (simp add: e querySelector_def)
    moreover have "node_at (LandingPage_effect d) (InHead [length (head ?d1)]) = Some new_meta"
      by (simp add: e)
    ultimately show ?thesis by (auto simp: new_meta_def)
  next
    case (Some pl)
    then have e: "LandingPage_effect d =
        modify_at (set_attr_node ''content'' page_description) pl ?d1"
      by (rule effect_found)
    from Some have f: "find_in matches_meta_description ?d1 = Some pl"
      by (simp add: querySelector_def)
    have "find_in matches_meta_description
        (modify_at (set_attr_node ''content'' page_description) pl ?d1) = Some pl"
      by (rule find_in_stable[OF _ _ _ f]) (simp_all add: matches_set_content)
    then have q: "querySelector (LandingPage_effect d) = Some pl"
      by (simp add: e querySelector_def)
    from find_in_sound[OF f] obtain m where
      m: "node_at ?d1 pl = Some m" "matches_meta_description m" by blast
    then obtain t as cs where el: "m = Element t as cs" by (cases m) auto
    with m have "node_at (LandingPage_effect d) pl =
        Some (Element t (setAttribute as ''content'' page_description) cs)"
      by (simp add: e node_at_modify_at)
    with q show ?thesis by (auto simp: getAttribute_setAttribute_same)
  qed
qed

text \<open>A document that already has the title text and the description is left as it is.\<close>

lemma effect_fixed:
  assumes "title_element d = Some pt"
    and "node_at d pt = Some (Element t as [TextNode page_title])"
    and "querySelector d = Some pl"
    and "node_at d pl = Some (Element t' as' cs')"
    and "getAttribute as' ''content'' = Some page_description"
  shows "LandingPage_effect d = d"
proof -
  have "set_title page_title d = modify_at (set_children [TextNode page_title]) pt d"
    using assms(1) by (rule set_title_found)
  also have "\<dots> = d" using assms(2) by (rule modify_at_fixed) simp
  finally have s: "set_title page_title d = d" .
  with assms(3) have "LandingPage_effect d =
      modify_at (set_attr_node ''content'' page_description) pl d"
    using effect_found[of d pl] by simp
  also have "\<dots> = d"
    using assms(4) by (rule modify_at_fixed) (simp add: setAttribute_same_value[OF assms(5)])
  finally show ?thesis .
qed

lemma document_ext:
  fixes a b :: document
  assumes "\<And>pl. map_option own_part (node_at a pl) = map_option own_part (node_at b pl)"
  shows "a = b"
proof -
  have "pre_head a = pre_head b"
    using assms[of "PreHead q" for q] by (intro forest_ext) simp
  moreover have "head a = head b"
    using assms[of "InHead q" for q] by (intro forest_ext) simp
  moreover have "post_head a = post_head b"
    using assms[of "PostHead q" for q] by (intro forest_ext) simp
  ultimately show ?thesis by simp
qed

subsection \<open>Claims about the metadata effect\<close>

text \<open>
  Claim C3.  After the Content View's metadata effect has run, the document title (what
  \<open>document.title\<close> reads) is exactly the fixed title literal and the description the
  document shows (the \<open>content\<close> of what \<open>meta[name="description"]\<close> selects) is exactly
  the fixed description literal, for every document: whatever its title was, and whether or
  not it had a description element.
\<close>

theorem effect_sets_title_and_description:
  "title (LandingPage_effect d) = page_title \<and>
   description_content (LandingPage_effect d) = Some page_description"
proof
  from effect_title_result[of d] obtain pt t as where
    "title_element (LandingPage_effect d) = Some pt"
    "node_at (LandingPage_effect d) pt = Some (Element t as [TextNode page_title])"
    by blast
  then show "title (LandingPage_effect d) = page_title"
    by (simp add: title_def child_text_content_def strip_and_collapse_page_title)
  from effect_meta_result[of d] obtain pl t as cs where
    "querySelector (LandingPage_effect d) = Some pl"
    "node_at (LandingPage_effect d) pl = Some (Element t as cs)"
    "getAttribute as ''content'' = Some page_description"
    by blast
  then show "description_content (LandingPage_effect d) = Some page_description"
    by (simp add: description_content_def)
qed

text \<open>
  Claim C5.  The metadata effect is idempotent: for every document, running it twice
  gives the same document as running it once.  After the first run the selector finds an
  element, so the second run takes the branch that updates in place and creates nothing.
\<close>

theorem effect_idempotent:
  "LandingPage_effect (LandingPage_effect d) = LandingPage_effect d \<and>
   querySelector (LandingPage_effect d) \<noteq> None"
proof -
  from effect_title_result[of d] obtain pt t as where
    t: "title_element (LandingPage_effect d) = Some pt"
    "node_at (LandingPage_effect d) pt = Some (Element t as [TextNode page_title])"
    by blast
  from effect_meta_result[of d] obtain pl t' as' cs' where
    m: "querySelector (LandingPage_effect d) = Some pl"
    "node_at (LandingPage_effect d) pl = Some (Element t' as' cs')"
    "getAttribute as' ''content'' = Some page_description"
    by blast
  from t m have "LandingPage_effect (LandingPage_effect d) = LandingPage_effect d"
    by (rule effect_fixed)
  with m(1) show ?thesis by simp
qed

subsection \<open>What the effect leaves alone\<close>
















section \<open>Properties of the root controller\<close>

lemma foldl_setIsLoading:
  "foldl (\<lambda>w' cb. setIsLoading False w') w xs =
     (if xs = [] then w else w\<lparr>isLoading := False\<rparr>)"
  by (induction xs arbitrary: w) (auto simp: setIsLoading_def)

lemma App_mount_eq:
  "App_mount t0 = \<lparr>isLoading = True, timer = Some 1, timers = [(1, t0 + 800)], next_id = 2,
     now = t0, live = True\<rparr>"
  by (simp add: App_mount_def setTimeout_def)

lemma pending_mount: "pending_or_done t0 (App_mount t0)"
  by (simp add: App_mount_eq pending_or_done_def)

lemma clock_mount: "by_the_clock t0 (App_mount t0)"
  by (simp add: App_mount_eq by_the_clock_def)

lemma pending_step: "pending_or_done t0 w \<Longrightarrow> pending_or_done t0 (step w e)"
  by (cases e)
     (auto simp: pending_or_done_def advance_def teardown_def clearTimeout_def
        foldl_setIsLoading Let_def split: if_splits)

lemma pending_run: "pending_or_done t0 w \<Longrightarrow> pending_or_done t0 (run w es)"
  by (induction es arbitrary: w) (simp_all add: pending_step)

lemma step_keeps_ready:
  "pending_or_done t0 w \<Longrightarrow> \<not> isLoading w \<Longrightarrow> \<not> isLoading (step w e)"
  by (cases e)
     (auto simp: pending_or_done_def advance_def teardown_def clearTimeout_def
        foldl_setIsLoading Let_def split: if_splits)

lemma run_keeps_ready:
  "pending_or_done t0 w \<Longrightarrow> \<not> isLoading w \<Longrightarrow> \<not> isLoading (run w es)"
proof (induction es arbitrary: w)
  case Nil
  then show ?case by simp
next
  case (Cons e es)
  from Cons.prems have "pending_or_done t0 (step w e)" "\<not> isLoading (step w e)"
    by (simp_all add: pending_step step_keeps_ready)
  then show ?case using Cons.IH by simp
qed

lemma run_append: "run w (es @ es') = run (run w es) es'"
  by (induction es arbitrary: w) simp_all

lemma changes_Cons_trace:
  "changes (a # map f (trace w es)) = (if a = f w then 0 else 1) + changes (map f (trace w es))"
  by (cases es) simp_all

lemma changes_trace:
  "pending_or_done t0 w \<Longrightarrow>
   changes (map isLoading (trace w es)) =
     (if isLoading w \<and> \<not> isLoading (run w es) then 1 else 0)"
proof (induction es arbitrary: w)
  case Nil
  then show ?case by simp
next
  case (Cons e es)
  have p: "pending_or_done t0 (step w e)" using Cons.prems by (rule pending_step)
  have "changes (map isLoading (trace w (e # es))) =
      (if isLoading w = isLoading (step w e) then 0 else 1) +
      changes (map isLoading (trace (step w e) es))"
    by (simp add: changes_Cons_trace)
  also have "\<dots> = (if isLoading w = isLoading (step w e) then 0 else 1) +
      (if isLoading (step w e) \<and> \<not> isLoading (run (step w e) es) then 1 else 0)"
    using Cons.IH[OF p] by simp
  also have "\<dots> = (if isLoading w \<and> \<not> isLoading (run w (e # es)) then 1 else 0)"
    using step_keeps_ready[OF Cons.prems, of e] run_keeps_ready[OF p, of es]
    by auto
  finally show ?case .
qed

lemma clock_advance: "by_the_clock t0 w \<Longrightarrow> by_the_clock t0 (advance dt w)"
  by (auto simp: by_the_clock_def advance_def foldl_setIsLoading Let_def split: if_splits)

lemma now_advance: "now (advance dt w) = now w + dt"
  by (simp add: advance_def foldl_setIsLoading Let_def)

lemma clock_run:
  "by_the_clock t0 w \<Longrightarrow> Teardown \<notin> set es \<Longrightarrow>
   by_the_clock t0 (run w es) \<and> now (run w es) = now w + elapsed es"
proof (induction es arbitrary: w)
  case Nil
  then show ?case by simp
next
  case (Cons e es)
  then obtain dt where e: "e = Advance dt" by (cases e) auto
  from Cons.prems have "by_the_clock t0 (advance dt w)" by (simp add: clock_advance)
  with Cons.IH[of "advance dt w"] Cons.prems(2) e show ?case
    by (simp add: now_advance)
qed

lemma torn_down_step:
  "timers w = [] \<Longrightarrow> \<not> live w \<Longrightarrow> step w e = w\<lparr>now := now w + elapsed [e]\<rparr>"
  by (cases e) (simp_all add: advance_def teardown_def Let_def)

lemma torn_down_run:
  "timers w = [] \<Longrightarrow> \<not> live w \<Longrightarrow> run w es = w\<lparr>now := now w + elapsed es\<rparr>"
proof (induction es arbitrary: w)
  case Nil
  then show ?case by simp
next
  case (Cons e es)
  let ?w = "w\<lparr>now := now w + elapsed [e]\<rparr>"
  from Cons.prems have s: "step w e = ?w" by (rule torn_down_step)
  from Cons.prems have "run ?w es = ?w\<lparr>now := now ?w + elapsed es\<rparr>"
    by (intro Cons.IH) simp_all
  with s show ?case by (cases e) (simp_all add: add.assoc)
qed

text \<open>
  Claim C1.  On activation the loading flag is true.  Once it is false it is false after
  any further events.  Along every run it changes exactly once if it ends false and not at
  all if it ends true.  While the root has not been torn down, the flag is true exactly
  as long as less than 800 time units have passed, and when they have passed the timer
  table is empty: the timeout was one-shot and nothing restarts it.
\<close>

theorem loading_flag_one_way:
  "isLoading (App_mount t0) \<and>
   (\<forall>es es'. \<not> isLoading (run (App_mount t0) es) \<longrightarrow>
       \<not> isLoading (run (App_mount t0) (es @ es'))) \<and>
   (\<forall>es. changes (map isLoading (trace (App_mount t0) es)) =
       (if isLoading (run (App_mount t0) es) then 0 else 1)) \<and>
   (\<forall>es. Teardown \<notin> set es \<longrightarrow>
       isLoading (run (App_mount t0) es) = (elapsed es < 800) \<and>
       (800 \<le> elapsed es \<longrightarrow> timers (run (App_mount t0) es) = []))"
proof (intro conjI allI impI)
  show "isLoading (App_mount t0)" by (simp add: App_mount_eq)
next
  fix es es'
  assume "\<not> isLoading (run (App_mount t0) es)"
  with pending_run[OF pending_mount, of t0 es]
  show "\<not> isLoading (run (App_mount t0) (es @ es'))"
    by (simp add: run_append run_keeps_ready)
next
  fix es
  show "changes (map isLoading (trace (App_mount t0) es)) =
      (if isLoading (run (App_mount t0) es) then 0 else 1)"
    using changes_trace[OF pending_mount, of t0 es] by (simp add: App_mount_eq)
next
  fix es
  assume nt: "Teardown \<notin> set es"
  from clock_run[OF clock_mount nt, of t0]
  have c: "by_the_clock t0 (run (App_mount t0) es)"
    and n: "now (run (App_mount t0) es) = t0 + elapsed es"
    by (simp_all add: App_mount_eq)
  from c n show "isLoading (run (App_mount t0) es) = (elapsed es < 800)"
    by (auto simp: by_the_clock_def split: if_splits)
  assume "800 \<le> elapsed es"
  with c n show "timers (run (App_mount t0) es) = []"
    by (auto simp: by_the_clock_def split: if_splits)
qed

theorem loading_flag_one_way_witness:
  "isLoading (run (App_mount 0) [Advance 300, Advance 499]) \<and>
   \<not> isLoading (run (App_mount 0) [Advance 300, Advance 500]) \<and>
   \<not> isLoading
       (run (App_mount 0) ([Advance 300, Advance 500] @ [Advance 10, Teardown, Advance 5])) \<and>
   changes (map isLoading (trace (App_mount 0) [Advance 300, Advance 500, Advance 10])) = 1 \<and>
   timers (run (App_mount 0) [Advance 300, Advance 500]) = []"
proof -
  have nt: "Teardown \<notin> set [Advance 300, Advance 499]"
    "Teardown \<notin> set [Advance 300, Advance 500]"
    by simp_all
  have e: "elapsed [Advance 300, Advance 499] < 800" "800 \<le> elapsed [Advance 300, Advance 500]"
    by simp_all
  from loading_flag_one_way[of 0] nt(1) e(1)
  have a: "isLoading (run (App_mount 0) [Advance 300, Advance 499])"
    by blast
  from loading_flag_one_way[of 0] nt(2) e(2)
  have b: "\<not> isLoading (run (App_mount 0) [Advance 300, Advance 500])"
    and t: "timers (run (App_mount 0) [Advance 300, Advance 500]) = []"
    by (metis not_le)+
  from loading_flag_one_way[of 0] b
  have c: "\<not> isLoading
      (run (App_mount 0) ([Advance 300, Advance 500] @ [Advance 10, Teardown, Advance 5]))"
    by blast
  from loading_flag_one_way[of 0] b
  have "\<not> isLoading (run (App_mount 0) ([Advance 300, Advance 500] @ [Advance 10]))"
    by blast
  then have "\<not> isLoading (run (App_mount 0) [Advance 300, Advance 500, Advance 10])" by simp
  with loading_flag_one_way[of 0]
  have d: "changes (map isLoading (trace (App_mount 0) [Advance 300, Advance 500, Advance 10])) = 1"
    by presburger
  from a b c d t show ?thesis by blast
qed

text \<open>
  Claim C2.  When the root is torn down after less than 800 time units, the timer table
  is empty right after the teardown (the pending timeout is cancelled), and whatever
  happens afterwards changes nothing of the state but the clock; in particular the loading
  flag stays true at every later time.
\<close>

theorem teardown_cancels_timer:
  assumes "Teardown \<notin> set es" and "elapsed es < 800"
  shows "timers (run (App_mount t0) (es @ [Teardown])) = [] \<and>
     (\<forall>es'. run (App_mount t0) (es @ Teardown # es') =
        (run (App_mount t0) (es @ [Teardown]))\<lparr>now := t0 + elapsed es + elapsed es'\<rparr>) \<and>
     (\<forall>es'. isLoading (run (App_mount t0) (es @ Teardown # es')))"
proof -
  let ?w = "run (App_mount t0) es"
  let ?v = "teardown ?w"
  from clock_run[OF clock_mount assms(1), of t0]
  have c: "by_the_clock t0 ?w" and n: "now ?w = t0 + elapsed es"
    by (simp_all add: App_mount_eq)
  with assms(2) have w: "timers ?w = [(1, t0 + 800)]" "isLoading ?w" "live ?w" "timer ?w = Some 1"
    by (auto simp: by_the_clock_def split: if_splits)
  then have v: "timers ?v = []" "\<not> live ?v" "isLoading ?v" "now ?v = t0 + elapsed es"
    using n by (simp_all add: teardown_def clearTimeout_def)
  have r1: "run (App_mount t0) (es @ [Teardown]) = ?v" by (simp add: run_append)
  have r2: "run (App_mount t0) (es @ Teardown # es') =
      ?v\<lparr>now := t0 + elapsed es + elapsed es'\<rparr>" for es'
    using torn_down_run[OF v(1,2), of es'] v(4) by (simp add: run_append)
  show ?thesis using v r1 r2 by simp
qed

theorem teardown_cancels_timer_witness:
  "Teardown \<notin> set [Advance 300, Advance 499] \<and> elapsed [Advance 300, Advance 499] < 800 \<and>
   timers (run (App_mount 0) ([Advance 300, Advance 499] @ [Teardown])) = [] \<and>
   isLoading
     (run (App_mount 0) ([Advance 300, Advance 499] @ Teardown # [Advance 1, Advance 2000]))"
proof -
  have h: "Teardown \<notin> set [Advance 300, Advance 499]" "elapsed [Advance 300, Advance 499] < 800"
    by simp_all
  from teardown_cancels_timer[OF h, of 0] h show ?thesis by blast
qed

section \<open>Properties of what is rendered\<close>

lemma views_live:
  "live w \<Longrightarrow> views w = (if isLoading w then [''Loader''] else [''LandingPage''])"
  by (simp add: views_def App_render_def)

lemma views_torn_down: "\<not> live w \<Longrightarrow> views w = []"
  by (simp add: views_def)

text \<open>
  Claim C4.  Right after the root mounts, the Loading View is on screen and the Content
  View is not.  In every state in which the root is live, exactly one view is rendered:
  the Loading View if and only if the loading flag is true, the Content View if and only
  if it is false.  In no state at all are both rendered.  Along a run without teardown the
  Loading View is the one rendered as long as less than 800 time units have passed, the
  Content View from then on.
\<close>

theorem exactly_one_view:
  "LoadingView_mounted (App_mount t0) \<and> \<not> ContentView_mounted (App_mount t0) \<and>
   (live w \<longrightarrow>
      LoadingView_mounted w = isLoading w \<and>
      ContentView_mounted w = (\<not> isLoading w) \<and>
      length (views w) = 1) \<and>
   \<not> (LoadingView_mounted w \<and> ContentView_mounted w) \<and>
   (\<forall>es. Teardown \<notin> set es \<longrightarrow>
      LoadingView_mounted (run (App_mount t0) es) = (elapsed es < 800) \<and>
      ContentView_mounted (run (App_mount t0) es) = (800 \<le> elapsed es))"
proof (intro conjI allI impI)
  have l: "live (App_mount t0)" "isLoading (App_mount t0)" by (simp_all add: App_mount_eq)
  then show "LoadingView_mounted (App_mount t0)"
    by (simp add: LoadingView_mounted_def views_live)
  from l show "\<not> ContentView_mounted (App_mount t0)"
    by (simp add: ContentView_mounted_def views_live)
next
  assume "live w"
  then show "LoadingView_mounted w = isLoading w"
    and "ContentView_mounted w = (\<not> isLoading w)"
    and "length (views w) = 1"
    by (simp_all add: LoadingView_mounted_def ContentView_mounted_def views_live)
next
  show "\<not> (LoadingView_mounted w \<and> ContentView_mounted w)"
    by (cases "live w")
       (simp_all add: LoadingView_mounted_def ContentView_mounted_def views_live views_torn_down)
next
  fix es
  assume nt: "Teardown \<notin> set es"
  from clock_run[OF clock_mount nt, of t0]
  have c: "by_the_clock t0 (run (App_mount t0) es)"
    and n: "now (run (App_mount t0) es) = t0 + elapsed es"
    by (simp_all add: App_mount_eq)
  then have lv: "live (run (App_mount t0) es)"
    and fl: "isLoading (run (App_mount t0) es) = (elapsed es < 800)"
    by (auto simp: by_the_clock_def split: if_splits)
  from lv fl show "LoadingView_mounted (run (App_mount t0) es) = (elapsed es < 800)"
    by (simp add: LoadingView_mounted_def views_live)
  from lv fl show "ContentView_mounted (run (App_mount t0) es) = (800 \<le> elapsed es)"
    by (simp add: ContentView_mounted_def views_live not_less)
qed

theorem exactly_one_view_witness:
  "live (run (App_mount 0) [Advance 800]) \<and>
   ContentView_mounted (run (App_mount 0) [Advance 800]) \<and>
   \<not> LoadingView_mounted (run (App_mount 0) [Advance 800]) \<and>
   LoadingView_mounted (run (App_mount 0) [Advance 799]) \<and>
   \<not> ContentView_mounted (run (App_mount 0) [Advance 799])"
proof -
  have nt: "Teardown \<notin> set [Advance 800]" "Teardown \<notin> set [Advance 799]" by simp_all
  have e: "800 \<le> elapsed [Advance 800]" "elapsed [Advance 799] < 800" by simp_all
  have l: "live (run (App_mount 0) [Advance 800])"
    by (simp add: App_mount_eq advance_def setIsLoading_def)
  from exactly_one_view[of 0 "run (App_mount 0) [Advance 800]"] nt(1) e(1)
  have a: "ContentView_mounted (run (App_mount 0) [Advance 800])"
    by blast
  from exactly_one_view[of 0 "run (App_mount 0) [Advance 800]"] a
  have b: "\<not> LoadingView_mounted (run (App_mount 0) [Advance 800])"
    by blast
  from exactly_one_view[of 0 "run (App_mount 0) [Advance 799]"] nt(2) e(2)
  have c: "LoadingView_mounted (run (App_mount 0) [Advance 799])"
    by blast
  from exactly_one_view[of 0 "run (App_mount 0) [Advance 799]"] c
  have d: "\<not> ContentView_mounted (run (App_mount 0) [Advance 799])"
    by blast
  from l a b c d show ?thesis by blast
qed

text \<open>
  Claim C6, checked against the props the components declare.  \<open>App\<close> renders its view
  under \<open>AnimatePresence\<close> in mode \<open>wait\<close>, and the Content View enters from opacity 0
  (its items also from 20 units lower) to opacity 1 in place, the items over a duration of
  0.8.  The Loader starts at opacity 1 and its \<open>exit\<close> carries a transition of duration 0.8
  with the \<open>easeInOut\<close> curve, but \<open>exit\<close> names no value to animate to (no \<open>opacity\<close>,
  nothing beside the transition): the exit has a duration and an easing and nothing that
  fades.
\<close>

theorem Loader_exit_animates_nothing:
  "get_prop Loader ''initial'' = Some (Obj [(''opacity'', Num 1)]) \<and>
   get_prop Loader ''exit'' =
     Some (Obj [(''transition'', Obj [(''duration'', Num 0.8), (''ease'', Str ''easeInOut'')])]) \<and>
   map_option animation_targets (get_prop Loader ''exit'') = Some [] \<and>
   map (\<lambda>n. get_prop n ''mode'') (elements_by_tag ''AnimatePresence'' (App_render loading)) =
     [Some (Str ''wait'')] \<and>
   map_option animation_targets (field containerVariants ''hidden'') =
     Some [(''opacity'', Num 0)] \<and>
   map_option animation_targets (field containerVariants ''visible'') =
     Some [(''opacity'', Num 1)] \<and>
   map_option animation_targets (field itemVariants ''hidden'') =
     Some [(''y'', Num 20), (''opacity'', Num 0)] \<and>
   map_option animation_targets (field itemVariants ''visible'') =
     Some [(''y'', Num 0), (''opacity'', Num 1)]"
  by (simp add: Loader_def App_render_def containerVariants_def itemVariants_def)

text \<open>
  Claim C7.  The Content View renders exactly one \<open>a\<close> element, whatever the date; its
  \<open>href\<close> is exactly \<open>https://github.com/teamssUTXO\<close>, its \<open>target\<close> is \<open>_blank\<close> (a new
  browsing context), and the tokens of its \<open>rel\<close> are \<open>noopener\<close> and \<open>noreferrer\<close>.
\<close>

theorem outbound_link:
  "map (\<lambda>n. (get_prop n ''href'', get_prop n ''target'',
              map_option space_separated (get_prop n ''rel'')))
     (elements_by_tag ''a'' (LandingPage today)) =
   [(Some (Str ''https://github.com/teamssUTXO''), Some (Str ''_blank''),
     Some [''noopener'', ''noreferrer''])]"
  by (simp add: LandingPage_def)

subsection \<open>The decimal string of a number reads back as the number\<close>

lemma digit_cases:
  assumes "n < 10"
  obtains "n = 0" | "n = 1" | "n = 2" | "n = 3" | "n = 4" | "n = 5" | "n = 6" | "n = 7"
    | "n = 8" | "n = (9::nat)"
  using assms by atomize_elim arith

lemma digit_value_digit_char: "n < 10 \<Longrightarrow> digit_value (digit_char n) = n"
  by (erule digit_cases) (simp_all add: digit_char_def digit_value_def)

lemma digit_char_not_minus: "n < 10 \<Longrightarrow> digit_char n \<noteq> CHR ''-''"
  by (erule digit_cases) (simp_all add: digit_char_def)

lemma nat_of_string_append:
  "nat_of_string (s @ [c]) = 10 * nat_of_string s + digit_value c"
  by (simp add: nat_of_string_def)

declare string_of_nat.simps [simp del]

lemma string_of_nat_small: "n < 10 \<Longrightarrow> string_of_nat n = [digit_char n]"
  by (subst string_of_nat.simps) simp

lemma string_of_nat_large:
  "\<not> n < 10 \<Longrightarrow> string_of_nat n = string_of_nat (n div 10) @ [digit_char (n mod 10)]"
  by (subst string_of_nat.simps) simp

lemma nat_of_string_of_nat: "nat_of_string (string_of_nat n) = n"
proof (induction n rule: string_of_nat.induct)
  case (1 n)
  show ?case
  proof (cases "n < 10")
    case True
    then show ?thesis
      by (simp add: string_of_nat_small nat_of_string_def digit_value_digit_char)
  next
    case False
    then have "nat_of_string (string_of_nat n) =
        10 * nat_of_string (string_of_nat (n div 10)) + digit_value (digit_char (n mod 10))"
      by (simp add: string_of_nat_large nat_of_string_append)
    also have "\<dots> = 10 * (n div 10) + n mod 10"
      using 1[OF False] by (simp add: digit_value_digit_char)
    also have "\<dots> = n" by simp
    finally show ?thesis .
  qed
qed

lemma string_of_nat_first: "\<exists>c cs. string_of_nat n = c # cs \<and> c \<noteq> CHR ''-''"
proof (induction n rule: string_of_nat.induct)
  case (1 n)
  show ?case
  proof (cases "n < 10")
    case True
    then show ?thesis by (simp add: string_of_nat_small digit_char_not_minus)
  next
    case False
    from 1[OF False] obtain c cs where "string_of_nat (n div 10) = c # cs" "c \<noteq> CHR ''-''"
      by blast
    with False show ?thesis by (simp add: string_of_nat_large)
  qed
qed

lemma int_of_string_Number_toString: "int_of_string (Number_toString i) = i"
proof (cases "i < 0")
  case True
  then show ?thesis by (simp add: Number_toString_def nat_of_string_of_nat)
next
  case False
  obtain c cs where s: "string_of_nat (nat i) = c # cs" "c \<noteq> CHR ''-''"
    using string_of_nat_first by blast
  have "int_of_string (string_of_nat (nat i)) = int (nat_of_string (string_of_nat (nat i)))"
    using s by simp
  with False show ?thesis by (simp add: Number_toString_def nat_of_string_of_nat)
qed


text \<open>
  Claim C8.  For every render of the Content View, at whatever date, the one footer holds
  the copyright sign, then the decimal string of the year of the current date, then the
  fixed rest; that string reads back as exactly the year of the current date.
\<close>

theorem footer_year:
  "map children_of (elements_by_tag ''motion.footer'' (LandingPage today)) =
     [[VText [CHR 0xA9, CHR '' ''],
       VText (Number_toString (year today)),
       VText ('' Timoth'' @ [CHR 0xE9] @ '' Fardella. All rights reserved.'')]] \<and>
   int_of_string (Number_toString (year today)) = year today"
  by (simp add: LandingPage_def getFullYear_def int_of_string_Number_toString)

text \<open>
  Claim C9.  The Loader's spinner is two rings.  The outer one declares no animation and
  no transition: it is static.  The inner one declares the animation \<open>rotate: 360\<close> with
  the transition of duration 1, infinite repeat and linear easing.
\<close>

theorem spinner_rings:
  "map tag_of Loader_rings = [''motion.div'', ''motion.div''] \<and>
   map (\<lambda>n. (get_prop n ''animate'', get_prop n ''transition'')) Loader_rings =
     [(None, None),
      (Some (Obj [(''rotate'', Num 360)]),
       Some (Obj [(''duration'', Num 1), (''repeat'', Infinity), (''ease'', Str ''linear'')]))]"
  by (simp add: Loader_rings_def Loader_def)

end
